theory Spec2Isabelle
  imports Complex_Main "HOL-Library.Sublist"
begin

section \<open>The binder of src/App.tsx: data model\<close>

text \<open>
  \<^verbatim>\<open>allCards: (string | null)[]\<close>: a slot is an image reference (a data URL) or
  \<^verbatim>\<open>null\<close>. Page and slot indices computed by the component are non-negative
  integers; an index that reaches a JavaScript array method as an argument is an
  \<open>int\<close>, with the method's treatment of negative values written out.
\<close>

type_synonym card = "string option"

definition ITEMS_PER_PAGE :: nat where
  "ITEMS_PER_PAGE = 9"

text \<open>\<^verbatim>\<open>Math.ceil(n / ITEMS_PER_PAGE)\<close> on a length \<open>n\<close>.\<close>

definition ceilPages :: "nat \<Rightarrow> nat" where
  "ceilPages n = (n + (ITEMS_PER_PAGE - 1)) div ITEMS_PER_PAGE"

text \<open>Line 213: \<^verbatim>\<open>Math.max(1, Math.ceil(allCards.length / ITEMS_PER_PAGE))\<close>.\<close>

definition totalPages :: "card list \<Rightarrow> nat" where
  "totalPages allCards = max 1 (ceilPages (length allCards))"

subsection \<open>JavaScript array primitives used by the component\<close>

datatype js_error = RangeError

text \<open>
  \<^verbatim>\<open>xs.slice(start, end)\<close>: a negative argument counts from the end, both are clamped
  to \<open>[0, length]\<close>, and an empty range gives the empty array.
\<close>

definition js_slice :: "'a list \<Rightarrow> int \<Rightarrow> int \<Rightarrow> 'a list" where
  "js_slice xs start end =
     (let len = int (length xs);
          k = (if start < 0 then max (len + start) 0 else min start len);
          final = (if end < 0 then max (len + end) 0 else min end len)
      in take (nat (final - k)) (drop (nat k) xs))"

text \<open>
  \<^verbatim>\<open>Array(n).fill(null)\<close>: the constructor throws a RangeError for a length that is
  negative or above \<open>2^32 - 1\<close>.
\<close>

definition js_Array_fill_null :: "int \<Rightarrow> js_error + card list" where
  "js_Array_fill_null n =
     (if n < 0 \<or> n > 4294967295 then Inl RangeError else Inr (replicate (nat n) None))"

text \<open>
  \<^verbatim>\<open>xs.splice(start, deleteCount)\<close>, the array left behind: a negative start counts
  from the end, the start is clamped to \<open>[0, length]\<close> and the count to what is left.
\<close>

definition js_splice :: "'a list \<Rightarrow> int \<Rightarrow> int \<Rightarrow> 'a list" where
  "js_splice xs start deleteCount =
     (let len = int (length xs);
          actualStart = (if start < 0 then max (len + start) 0 else min start len);
          actualDeleteCount = min (max deleteCount 0) (len - actualStart)
      in take (nat actualStart) xs @ drop (nat (actualStart + actualDeleteCount)) xs)"

text \<open>
  \<^verbatim>\<open>updated[i] === null\<close>: a read outside the array gives \<^verbatim>\<open>undefined\<close>, which is
  not \<^verbatim>\<open>null\<close>.
\<close>

definition isNullAt :: "card list \<Rightarrow> int \<Rightarrow> bool" where
  "isNullAt updated i = (0 \<le> i \<and> nat i < length updated \<and> updated ! nat i = None)"

subsection \<open>Component state\<close>

text \<open>
  The \<^verbatim>\<open>DragState\<close> interface (lines 28-34); its fields \<^verbatim>\<open>x\<close> and \<^verbatim>\<open>y\<close> are
  \<open>dragX\<close> and \<open>dragY\<close> here.
\<close>

record DragState =
  isDragging :: bool
  draggedIndex :: "nat option"
  draggedData :: "string option"
  dragX :: int
  dragY :: int

text \<open>The three \<^verbatim>\<open>alert\<close> calls of \<^verbatim>\<open>handleGenerateAll\<close> (lines 443, 447, 473).\<close>

datatype alert = AlertInitialising | AlertNoCards | AlertFailed

text \<open>
  The \<^verbatim>\<open>useState\<close> and \<^verbatim>\<open>useRef\<close> cells of \<^verbatim>\<open>BinderApp\<close> (lines 191-210) that the
  modelled handlers read or write, and the alerts shown so far.
\<close>

record app =
  allCards :: "card list"
  currentPage :: nat
  isGenerating :: bool
  generatedImages :: "string list"
  alerts :: "alert list"

section \<open>Page view\<close>

text \<open>
  \<^verbatim>\<open>getCardsForPage\<close> (lines 242-247). The only call that can throw is the array
  constructor; its failure is a branch of the result.
\<close>

definition getCardsForPage :: "card list \<Rightarrow> int \<Rightarrow> js_error + card list" where
  "getCardsForPage cards pageIdx =
     (let startIndex = pageIdx * int ITEMS_PER_PAGE;
          pageCards = js_slice cards startIndex (startIndex + int ITEMS_PER_PAGE)
      in case js_Array_fill_null (int ITEMS_PER_PAGE - int (length pageCards)) of
           Inl e \<Rightarrow> Inl e
         | Inr filler \<Rightarrow> Inr (pageCards @ filler))"

section \<open>Batch upload\<close>

text \<open>
  The state update of \<^verbatim>\<open>handleBatchUpload\<close> (lines 264-274): \<^verbatim>\<open>prev.filter(c => c !== null)\<close>
  followed by the new photos. \<^verbatim>\<open>newPhotos\<close> has type \<^verbatim>\<open>string[]\<close>.
\<close>

definition handleBatchUpload_update :: "string list \<Rightarrow> card list \<Rightarrow> card list" where
  "handleBatchUpload_update newPhotos prev =
     (let cleanedPrev = filter (\<lambda>c. c \<noteq> None) prev;
          updated = cleanedPrev @ map Some newPhotos
      in updated)"

text \<open>
  \<^verbatim>\<open>handleBatchUpload\<close> (lines 251-276) on the photos read from the selected files, one
  per file: an empty selection returns before any update. The page jump of line 271 is
  deferred by 100 ms; the state returned is the one after it.
\<close>

definition handleBatchUpload :: "string list \<Rightarrow> app \<Rightarrow> app" where
  "handleBatchUpload newPhotos st =
     (if length newPhotos = 0 then st
      else let updated = handleBatchUpload_update newPhotos (allCards st);
               newLastPage = nat (max 0 (int (ceilPages (length updated)) - 1))
           in st\<lparr>allCards := updated, currentPage := newLastPage\<rparr>)"

section \<open>Removal\<close>

text \<open>
  \<^verbatim>\<open>removeCard\<close> (lines 426-437): one \<^verbatim>\<open>splice(globalIndex, 1)\<close>, then the current page
  is pulled back when it no longer exists. Nothing on this path throws.
\<close>

definition removeCard :: "int \<Rightarrow> app \<Rightarrow> app" where
  "removeCard indexOnPage st =
     (let globalIndex = int (currentPage st) * int ITEMS_PER_PAGE + indexOnPage;
          updated = js_splice (allCards st) globalIndex 1;
          newTotalPages = max 1 (ceilPages (length updated))
      in st\<lparr>allCards := updated,
            currentPage := (if currentPage st \<ge> newTotalPages then newTotalPages - 1
                            else currentPage st)\<rparr>)"

section \<open>Swap on drop\<close>

text \<open>Line 395: \<^verbatim>\<open>while (updated.length <= maxIndex) updated.push(null)\<close>.\<close>

function padLoop :: "card list \<Rightarrow> nat \<Rightarrow> card list" where
  "padLoop updated maxIndex =
     (if length updated \<le> maxIndex then padLoop (updated @ [None]) maxIndex else updated)"
  by pat_completeness auto
termination
  by (relation "measure (\<lambda>(updated, maxIndex). Suc maxIndex - length updated)") auto

text \<open>Line 405: \<^verbatim>\<open>while (i >= 0 && updated[i] === null) { updated.pop(); i--; }\<close>.\<close>

function trimLoop :: "card list \<Rightarrow> int \<Rightarrow> card list" where
  "trimLoop updated i =
     (if i \<ge> 0 \<and> isNullAt updated i then trimLoop (butlast updated) (i - 1) else updated)"
  by pat_completeness auto
termination
  by (relation "measure (\<lambda>(updated, i). nat (i + 1))") auto

text \<open>
  The state update of \<^verbatim>\<open>endDrag\<close> (lines 390-408), for the source and target slot
  indices. Both come from \<^verbatim>\<open>data-slot-index\<close> attributes, which line 133 computes as
  \<^verbatim>\<open>pageIndex * 9 + i\<close>; the sentinel \<open>-1\<close> and equal indices are excluded by the guard
  of line 389.
\<close>

definition endDrag_update :: "nat \<Rightarrow> nat \<Rightarrow> card list \<Rightarrow> card list" where
  "endDrag_update sourceGlobalIndex targetGlobalIndex prev =
     (let maxIndex = max sourceGlobalIndex targetGlobalIndex;
          updated = padLoop prev maxIndex;
          temp = updated ! sourceGlobalIndex;
          updated = updated[sourceGlobalIndex := updated ! targetGlobalIndex];
          updated = updated[targetGlobalIndex := temp]
      in trimLoop updated (int (length updated) - 1))"

text \<open>The trimming of line 404-405 on its own: the loop started at the last index.\<close>

definition stripTrailing :: "card list \<Rightarrow> card list" where
  "stripTrailing cards = trimLoop cards (int (length cards) - 1)"

text \<open>"The last slot, if any, holds an image": no trailing run of empty slots.\<close>

definition noTrailingEmpty :: "card list \<Rightarrow> bool" where
  "noTrailingEmpty cards = (cards = [] \<or> last cards \<noteq> None)"

text \<open>The content of a collection at a position, empty beyond its length.\<close>

definition slotAt :: "card list \<Rightarrow> nat \<Rightarrow> card" where
  "slotAt cards k = (if k < length cards then cards ! k else None)"

section \<open>Export\<close>

text \<open>
  The rasterisation of one page, lines 460-467: \<^verbatim>\<open>await window.html2canvas(element, ...)\<close>
  followed by \<^verbatim>\<open>canvas.toDataURL('image/png', 0.9)\<close>. It is a capability of the
  environment: a step on the outside world \<open>'w\<close> that either returns the encoded image
  or throws a value of type \<open>'e\<close>.
\<close>

type_synonym ('e, 'w) rasterize = "nat \<Rightarrow> 'w \<Rightarrow> ('e + string) \<times> 'w"

text \<open>
  The loop of lines 457-469 from index \<open>i\<close> on, inside the \<^verbatim>\<open>try\<close> block: \<open>Inl\<close> is a throw
  leaving the loop. \<open>exportRefs i\<close> says that \<^verbatim>\<open>exportRefs.current[i]\<close> holds an element;
  a page without one is skipped (line 459). Each \<^verbatim>\<open>await\<close> completes before the next
  iteration starts: the world left by one rasterisation is the one the next begins in.
\<close>

function exportLoop ::
  "('e, 'w) rasterize \<Rightarrow> (nat \<Rightarrow> bool) \<Rightarrow> nat \<Rightarrow> nat \<Rightarrow> string list \<Rightarrow> 'w
     \<Rightarrow> ('e + string list) \<times> 'w" where
  "exportLoop rasterize exportRefs pages i images w =
     (if i < pages then
        (if exportRefs i then
           (case rasterize i w of
              (Inl error, w') \<Rightarrow> (Inl error, w')
            | (Inr png, w') \<Rightarrow> exportLoop rasterize exportRefs pages (Suc i) (images @ [png]) w')
         else exportLoop rasterize exportRefs pages (Suc i) images w)
      else (Inr images, w))"
  by pat_completeness auto
termination
  by (relation "measure (\<lambda>(rasterize, exportRefs, pages, i, images, w). pages - i)") auto

text \<open>
  \<^verbatim>\<open>handleGenerateAll\<close> (lines 441-477). \<open>html2canvasLoaded\<close> is the truth of
  \<^verbatim>\<open>window.html2canvas\<close>; \<open>totalPages\<close> is the value of the render the handler belongs
  to. The wait of line 454 changes none of this state. The \<^verbatim>\<open>catch\<close> block alerts, the
  \<^verbatim>\<open>finally\<close> block clears \<open>isGenerating\<close>.
\<close>

definition handleGenerateAll ::
  "bool \<Rightarrow> ('e, 'w) rasterize \<Rightarrow> (nat \<Rightarrow> bool) \<Rightarrow> app \<Rightarrow> 'w \<Rightarrow> app \<times> 'w" where
  "handleGenerateAll html2canvasLoaded rasterize exportRefs st w =
     (if \<not> html2canvasLoaded then (st\<lparr>alerts := alerts st @ [AlertInitialising]\<rparr>, w)
      else if length (allCards st) = 0 then (st\<lparr>alerts := alerts st @ [AlertNoCards]\<rparr>, w)
      else
        (let st1 = st\<lparr>isGenerating := True\<rparr> in
         case exportLoop rasterize exportRefs (totalPages (allCards st)) 0 [] w of
           (Inr images, w') \<Rightarrow> (st1\<lparr>generatedImages := images, isGenerating := False\<rparr>, w')
         | (Inl error, w') \<Rightarrow>
             (st1\<lparr>alerts := alerts st1 @ [AlertFailed], isGenerating := False\<rparr>, w')))"

text \<open>
  An observer of the rasterisation capability: the same capability on a world that
  also records, in order, which page was requested and what came back.
\<close>

definition logged ::
  "('e, 'w) rasterize \<Rightarrow> ('e, 'w \<times> (nat \<times> ('e + string)) list) rasterize" where
  "logged rasterize i = (\<lambda>(w, trace).
     case rasterize i w of (r, w') \<Rightarrow> (r, (w', trace @ [(i, r)])))"

text \<open>
  What an observed run of the loop from index \<open>i\<close> looks like: the observer changes
  neither the result nor the world; on a normal exit the requests were made for the
  pages with an element, in ascending order, and the images appended are what they
  returned, in that order; on a throw the throwing request is the last one made.
\<close>

definition observedRun :: "('e, 'w) rasterize \<Rightarrow> (nat \<Rightarrow> bool) \<Rightarrow> nat \<Rightarrow> nat \<Rightarrow> string list \<Rightarrow> 'w
   \<Rightarrow> (nat \<times> ('e + string)) list \<Rightarrow> bool" where
  "observedRun R refs pages i images w tr =
    (\<exists>res w' new.
       exportLoop (logged R) refs pages i images (w, tr) = (res, (w', tr @ new)) \<and>
       exportLoop R refs pages i images w = (res, w') \<and>
       (\<forall>out. res = Inr out \<longrightarrow>
          (\<exists>rs. out = images @ rs \<and> map fst new = filter refs [i..<pages] \<and>
                map snd new = map Inr rs)) \<and>
       (\<forall>e. res = Inl e \<longrightarrow>
          (\<exists>pre j. new = pre @ [(j, Inl e)] \<and> (\<forall>x \<in> set pre. \<exists>s. snd x = Inr s))))"

section \<open>Drag gesture\<close>

text \<open>
  The two callbacks the component hands to \<^verbatim>\<open>setTimeout\<close>, with the values their closures
  capture: the long-press callback of \<open>startDrag\<close> (lines 308-318: slot index, pointer
  position, and \<^verbatim>\<open>allCards[globalIndex] || null\<close> of the render that armed it) and the
  hit-test callback of \<open>endDrag\<close> (lines 381-412: release position and the
  \<^verbatim>\<open>dragState.draggedIndex\<close> of the render that released).
\<close>

datatype task =
    LongPress nat int int "string option"
  | HitTest int int "nat option"

text \<open>
  The component state together with the \<^verbatim>\<open>useRef\<close> cells of the gesture (lines 207-209)
  and the browser's pending timers: identifier, due time in milliseconds, callback.
  Timer identifiers are positive, so a stored identifier is truthy.
\<close>

record ui = app +
  dragState :: DragState
  isPreviewMode :: bool
  touchTimerRef :: "nat option"
  dragStartPosRef :: "int \<times> int"
  isDraggingRef :: bool
  timers :: "(nat \<times> nat \<times> task) list"
  nextTimer :: nat

text \<open>The initial values of lines 191-210, with a given collection.\<close>

definition idle :: "card list \<Rightarrow> ui" where
  "idle cards =
     \<lparr>allCards = cards, currentPage = 0, isGenerating = False, generatedImages = [],
      alerts = [],
      dragState = \<lparr>isDragging = False, draggedIndex = None, draggedData = None,
                    dragX = 0, dragY = 0\<rparr>,
      isPreviewMode = False, touchTimerRef = None, dragStartPosRef = (0, 0),
      isDraggingRef = False, timers = [], nextTimer = 1\<rparr>"

definition setTimeout :: "task \<Rightarrow> nat \<Rightarrow> nat \<Rightarrow> ui \<Rightarrow> nat \<times> ui" where
  "setTimeout callback delay now st =
     (nextTimer st,
      st\<lparr>timers := timers st @ [(nextTimer st, now + delay, callback)],
         nextTimer := Suc (nextTimer st)\<rparr>)"

definition clearTimeout :: "nat \<Rightarrow> ui \<Rightarrow> ui" where
  "clearTimeout ident st =
     st\<lparr>timers := filter (\<lambda>(i, dueAt, callback). i \<noteq> ident) (timers st)\<rparr>"

text \<open>\<^verbatim>\<open>allCards[globalIndex] || null\<close>: \<^verbatim>\<open>undefined\<close>, \<^verbatim>\<open>null\<close> and the empty string give \<^verbatim>\<open>null\<close>.\<close>

definition cardOrNull :: "card list \<Rightarrow> nat \<Rightarrow> string option" where
  "cardOrNull cards globalIndex =
     (if globalIndex < length cards
      then (case cards ! globalIndex of None \<Rightarrow> None
            | Some url \<Rightarrow> if url = [] then None else Some url)
      else None)"

text \<open>\<^verbatim>\<open>startDrag\<close> (lines 303-319), called at time \<open>now\<close>.\<close>

definition startDrag :: "int \<Rightarrow> int \<Rightarrow> nat \<Rightarrow> nat \<Rightarrow> ui \<Rightarrow> ui" where
  "startDrag clientX clientY indexOnPage now st =
     (let st1 = st\<lparr>dragStartPosRef := (clientX, clientY)\<rparr>;
          globalIndex = currentPage st * ITEMS_PER_PAGE + indexOnPage;
          (ident, st2) = setTimeout
             (LongPress globalIndex clientX clientY (cardOrNull (allCards st) globalIndex))
             400 now st1
      in st2\<lparr>touchTimerRef := Some ident\<rparr>)"

text \<open>\<^verbatim>\<open>moveDrag\<close> (lines 332-346).\<close>

definition moveDrag :: "int \<Rightarrow> int \<Rightarrow> ui \<Rightarrow> ui" where
  "moveDrag clientX clientY st =
     (if isDraggingRef st
      then st\<lparr>dragState := (dragState st)\<lparr>dragX := clientX, dragY := clientY\<rparr>\<rparr>
      else
        (let dx = \<bar>clientX - fst (dragStartPosRef st)\<bar>;
             dy = \<bar>clientY - snd (dragStartPosRef st)\<bar>
         in if dx > 10 \<or> dy > 10
            then (case touchTimerRef st of
                    Some ident \<Rightarrow> (clearTimeout ident st)\<lparr>touchTimerRef := None\<rparr>
                  | None \<Rightarrow> st)
            else st))"

text \<open>
  \<^verbatim>\<open>endDrag\<close> (lines 359-414) up to the scheduling of the hit test, for the release
  position of the event.
\<close>

definition endDrag :: "int \<Rightarrow> int \<Rightarrow> nat \<Rightarrow> ui \<Rightarrow> ui" where
  "endDrag clientX clientY now st =
     (if isPreviewMode st then st
      else
        (let st1 = (case touchTimerRef st of
                      Some ident \<Rightarrow> (clearTimeout ident st)\<lparr>touchTimerRef := None\<rparr>
                    | None \<Rightarrow> st)
         in if isDraggingRef st1
            then
              (let st2 = st1\<lparr>isDraggingRef := False\<rparr>;
                   st3 = st2\<lparr>dragState := (dragState st2)\<lparr>isDragging := False\<rparr>\<rparr>;
                   (ident, st4) = setTimeout
                      (HitTest clientX clientY (draggedIndex (dragState st))) 50 now st3
               in st4)
            else st1))"

text \<open>
  A timer callback running. \<open>hitTest\<close> is the hit-test capability: the
  \<^verbatim>\<open>data-slot-index\<close> of the slot found at a point, if any; line 133 makes it a
  non-negative integer, so the sentinel \<open>-1\<close> of line 386 does not arise.
\<close>

fun runTask :: "(int \<Rightarrow> int \<Rightarrow> nat option) \<Rightarrow> task \<Rightarrow> ui \<Rightarrow> ui" where
  "runTask hitTest (LongPress globalIndex clientX clientY payload) st =
     st\<lparr>isDraggingRef := True,
        dragState := \<lparr>isDragging = True, draggedIndex = Some globalIndex, draggedData = payload,
                      dragX = clientX, dragY = clientY\<rparr>\<rparr>"
| "runTask hitTest (HitTest clientX clientY sourceGlobalIndex) st =
     (let st1 =
        (case hitTest clientX clientY of
           None \<Rightarrow> st
         | Some targetGlobalIndex \<Rightarrow>
             (case sourceGlobalIndex of
                None \<Rightarrow> st
              | Some source \<Rightarrow>
                  if targetGlobalIndex \<noteq> source
                  then st\<lparr>allCards := endDrag_update source targetGlobalIndex (allCards st)\<rparr>
                  else st))
      in st1\<lparr>dragState := \<lparr>isDragging = False, draggedIndex = None, draggedData = None,
                             dragX = 0, dragY = 0\<rparr>\<rparr>)"

text \<open>
  The pointer events the component listens to, with the pointer position; a press also
  carries the \<^verbatim>\<open>data-slot-index\<close> of the slot under the pointer, if there is one.
\<close>

datatype event =
    TouchStart int int "nat option"
  | MouseDown int int "nat option"
  | TouchMove int int
  | MouseMove int int
  | TouchEnd int int
  | MouseUp int int

text \<open>
  The listeners as they are attached: presses on the page container (lines 643-650,
  then \<^verbatim>\<open>handleTouchStart\<close> and \<^verbatim>\<open>handleMouseDown\<close>, lines 321-330), moves and releases on
  the root element (lines 554-557, then \<^verbatim>\<open>handleTouchMove\<close> and \<^verbatim>\<open>handleMouseMove\<close>,
  lines 348-357). A mouse move is forwarded only while \<^verbatim>\<open>isDraggingRef.current\<close> holds.
\<close>

fun handleEvent :: "event \<Rightarrow> nat \<Rightarrow> ui \<Rightarrow> ui" where
  "handleEvent (TouchStart clientX clientY slot) now st =
     (case slot of
        None \<Rightarrow> st
      | Some slotIndex \<Rightarrow>
          if isPreviewMode st then st
          else startDrag clientX clientY (slotIndex mod 9) now st)"
| "handleEvent (MouseDown clientX clientY slot) now st =
     (case slot of
        None \<Rightarrow> st
      | Some slotIndex \<Rightarrow>
          if isPreviewMode st then st
          else startDrag clientX clientY (slotIndex mod 9) now st)"
| "handleEvent (TouchMove clientX clientY) now st =
     (if isPreviewMode st then st else moveDrag clientX clientY st)"
| "handleEvent (MouseMove clientX clientY) now st =
     (if isDraggingRef st
      then (if isPreviewMode st then st else moveDrag clientX clientY st)
      else st)"
| "handleEvent (TouchEnd clientX clientY) now st = endDrag clientX clientY now st"
| "handleEvent (MouseUp clientX clientY) now st = endDrag clientX clientY now st"

text \<open>
  The browser's event loop: before an event that arrives at time \<open>now\<close> is handled, the
  timers due by then have run, in order of their due time. No callback of the component
  sets or clears a timer.
\<close>

definition fireDue :: "(int \<Rightarrow> int \<Rightarrow> nat option) \<Rightarrow> nat \<Rightarrow> ui \<Rightarrow> ui" where
  "fireDue hitTest now st =
     (let due = filter (\<lambda>(ident, dueAt, callback). dueAt \<le> now) (timers st);
          st1 = st\<lparr>timers := filter (\<lambda>(ident, dueAt, callback). \<not> dueAt \<le> now) (timers st)\<rparr>
      in foldl (\<lambda>s (ident, dueAt, callback). runTask hitTest callback s) st1
           (sort_key (\<lambda>(ident, dueAt, callback). dueAt) due))"

definition step :: "(int \<Rightarrow> int \<Rightarrow> nat option) \<Rightarrow> nat \<times> event \<Rightarrow> ui \<Rightarrow> ui" where
  "step hitTest timed st = handleEvent (snd timed) (fst timed) (fireDue hitTest (fst timed) st)"

fun run :: "(int \<Rightarrow> int \<Rightarrow> nat option) \<Rightarrow> (nat \<times> event) list \<Rightarrow> ui \<Rightarrow> ui" where
  "run hitTest [] st = st"
| "run hitTest (timed # rest) st = run hitTest rest (step hitTest timed st)"

fun isPress :: "event \<Rightarrow> bool" where
  "isPress (TouchStart clientX clientY slot) = True"
| "isPress (MouseDown clientX clientY slot) = True"
| "isPress other = False"

fun isMove :: "event \<Rightarrow> bool" where
  "isMove (TouchMove clientX clientY) = True"
| "isMove (MouseMove clientX clientY) = True"
| "isMove other = False"

text \<open>
  Two descriptions of the gesture state used in the proofs below. \<open>quiet\<close>: no timer is
  pending and no drag is active, with the given collection and drag state.
  \<open>armedOrCancelled\<close>: after a press at time \<open>t0\<close> and position \<open>(x0, y0)\<close>, no drag is
  active and the only timer that may be pending is the long-press timer of that press,
  due at \<open>t0 + 400\<close> and held in \<open>touchTimerRef\<close>.
\<close>

definition quiet :: "card list \<Rightarrow> DragState \<Rightarrow> ui \<Rightarrow> bool" where
  "quiet cards ds st =
     (timers st = [] \<and> \<not> isDraggingRef st \<and> allCards st = cards \<and> dragState st = ds)"

definition armedOrCancelled :: "nat \<Rightarrow> int \<Rightarrow> int \<Rightarrow> card list \<Rightarrow> DragState \<Rightarrow> ui \<Rightarrow> bool" where
  "armedOrCancelled t0 x0 y0 cards ds st =
     (\<not> isDraggingRef st \<and> \<not> isPreviewMode st \<and> allCards st = cards \<and> dragState st = ds \<and>
      dragStartPosRef st = (x0, y0) \<and>
      (case timers st of
         [] \<Rightarrow> True
       | (ident, dueAt, callback) # others \<Rightarrow>
           others = [] \<and> dueAt = t0 + 400 \<and> touchTimerRef st = Some ident))"

section \<open>The batch append as the specification words it\<close>

text \<open>
  "Strips any existing trailing empties, then appends all given images in order": the
  operation as section 4.1 of the specification describes it, for comparison with
  \<open>handleBatchUpload_update\<close>.
\<close>

definition appendBatch_spec :: "string list \<Rightarrow> card list \<Rightarrow> card list" where
  "appendBatch_spec images cards = stripTrailing cards @ map Some images"

section \<open>Arithmetic of pages\<close>

declare padLoop.simps [simp del] trimLoop.simps [simp del] exportLoop.simps [simp del]

lemma ceilPages_ceiling: "int (ceilPages n) = \<lceil>real n / 9\<rceil>"
proof -
  have "\<lceil>real n / 9\<rceil> = \<lceil>real_of_int (int n) / real_of_int 9\<rceil>" by simp
  also have "\<dots> = - ((- int n) div 9)" by (simp only: ceiling_divide_eq_div)
  also have "\<dots> = (int n + 8) div 9" by presburger
  also have "\<dots> = int ((n + 8) div 9)" by (simp add: zdiv_int)
  finally show ?thesis by (simp add: ceilPages_def ITEMS_PER_PAGE_def)
qed

section \<open>The loops of the swap in closed form\<close>

lemma padLoop_eq: "padLoop updated maxIndex = updated @ replicate (Suc maxIndex - length updated) None"
proof (induction updated maxIndex rule: padLoop.induct)
  case (1 updated maxIndex)
  show ?case
  proof (cases "length updated \<le> maxIndex")
    case True
    then have "Suc maxIndex - length updated = Suc (maxIndex - length updated)" by simp
    with True 1 show ?thesis
      by (subst padLoop.simps) (simp add: replicate_app_Cons_same)
  next
    case False
    then show ?thesis by (subst padLoop.simps) simp
  qed
qed

lemma isNullAt_last:
  "isNullAt updated (int (length updated) - 1) = (updated \<noteq> [] \<and> last updated = None)"
proof (cases updated rule: rev_cases)
  case Nil
  then show ?thesis by (simp add: isNullAt_def)
next
  case (snoc ys c)
  then show ?thesis by (simp add: isNullAt_def)
qed

lemma trimLoop_eq:
  "i = int (length updated) - 1 \<Longrightarrow>
   trimLoop updated i = rev (dropWhile (\<lambda>c. c = None) (rev updated))"
proof (induction updated i rule: trimLoop.induct)
  case (1 updated i)
  have nul: "isNullAt updated i = (updated \<noteq> [] \<and> last updated = None)"
    using 1(2) isNullAt_last[of updated] by simp
  show ?case
  proof (cases "updated \<noteq> [] \<and> last updated = None")
    case True
    then obtain ys where ys: "updated = ys @ [None]"
      by (cases updated rule: rev_cases) auto
    have cond: "i \<ge> 0 \<and> isNullAt updated i"
      using True nul 1(2) by (simp add: ys)
    have "trimLoop updated i = trimLoop (butlast updated) (i - 1)"
      using cond by (subst trimLoop.simps) simp
    also have "\<dots> = rev (dropWhile (\<lambda>c. c = None) (rev (butlast updated)))"
      by (rule 1(1)[OF cond]) (simp add: 1(2) ys)
    also have "\<dots> = rev (dropWhile (\<lambda>c. c = None) (rev updated))"
      by (simp add: ys)
    finally show ?thesis .
  next
    case False
    then have "dropWhile (\<lambda>c. c = None) (rev updated) = rev updated"
      by (cases updated rule: rev_cases) auto
    moreover have "\<not> (i \<ge> 0 \<and> isNullAt updated i)"
      using False nul by blast
    then have "trimLoop updated i = updated"
      by (subst trimLoop.simps) (simp only: if_False)
    ultimately show ?thesis by simp
  qed
qed

lemma stripTrailing_eq: "stripTrailing cards = rev (dropWhile (\<lambda>c. c = None) (rev cards))"
  unfolding stripTrailing_def by (rule trimLoop_eq) simp

lemma stripTrailing_decomp: "\<exists>k. cards = stripTrailing cards @ replicate k None"
proof -
  let ?P = "\<lambda>c::card. c = None"
  have "rev cards = takeWhile ?P (rev cards) @ dropWhile ?P (rev cards)" by simp
  then have "cards = rev (dropWhile ?P (rev cards)) @ rev (takeWhile ?P (rev cards))"
    by (metis rev_append rev_rev_ident)
  moreover have "\<forall>c \<in> set (rev (takeWhile ?P (rev cards))). c = None"
    by (auto dest: set_takeWhileD)
  then have "replicate (length (rev (takeWhile ?P (rev cards)))) None = rev (takeWhile ?P (rev cards))"
    by (rule replicate_length_same)
  ultimately have "cards = stripTrailing cards @ replicate (length (rev (takeWhile ?P (rev cards)))) None"
    unfolding stripTrailing_eq by simp
  then show ?thesis by (rule exI)
qed

lemma noTrailingEmpty_stripTrailing: "noTrailingEmpty (stripTrailing cards)"
proof -
  let ?P = "\<lambda>c::card. c = None"
  show ?thesis
  proof (cases "dropWhile ?P (rev cards)")
    case Nil
    then show ?thesis by (simp add: noTrailingEmpty_def stripTrailing_eq)
  next
    case (Cons c cs)
    then have "\<not> ?P c" using hd_dropWhile[of ?P "rev cards"] by simp
    with Cons show ?thesis by (simp add: noTrailingEmpty_def stripTrailing_eq)
  qed
qed

lemma slotAt_append_None: "slotAt (cards @ replicate k None) = slotAt cards"
  by (rule ext) (simp add: slotAt_def nth_append)

lemma slotAt_stripTrailing: "slotAt (stripTrailing cards) = slotAt cards"
proof -
  obtain k where "cards = stripTrailing cards @ replicate k None" using stripTrailing_decomp by blast
  then show ?thesis using slotAt_append_None[of "stripTrailing cards" k] by simp
qed

lemma noTrailingEmpty_length_le:
  assumes "noTrailingEmpty xs" and "\<forall>k. slotAt xs k = slotAt ys k"
  shows "length xs \<le> length ys"
proof (rule ccontr)
  assume "\<not> length xs \<le> length ys"
  then have lt: "length ys < length xs" by simp
  then have ne: "xs \<noteq> []" by auto
  with assms(1) have "last xs \<noteq> None" by (simp add: noTrailingEmpty_def)
  then have "slotAt xs (length xs - 1) \<noteq> None"
    using ne by (simp add: slotAt_def last_conv_nth)
  moreover have "\<not> length xs - 1 < length ys" using lt by arith
  then have "slotAt ys (length xs - 1) = None"
    by (simp only: slotAt_def if_False)
  ultimately show False using assms(2) by simp
qed

lemma slotAt_eqI:
  assumes "noTrailingEmpty xs" and "noTrailingEmpty ys" and "\<forall>k. slotAt xs k = slotAt ys k"
  shows "xs = ys"
proof (rule nth_equalityI)
  show len: "length xs = length ys"
    using noTrailingEmpty_length_le[OF assms(1) assms(3)]
      noTrailingEmpty_length_le[OF assms(2)] assms(3) by (simp add: le_antisym)
  fix i assume "i < length xs"
  with len assms(3)[rule_format, of i] show "xs ! i = ys ! i" by (simp add: slotAt_def)
qed

lemma stripTrailing_id: "noTrailingEmpty cards \<Longrightarrow> stripTrailing cards = cards"
  by (rule slotAt_eqI) (simp_all add: noTrailingEmpty_stripTrailing slotAt_stripTrailing)

lemma endDrag_update_eq:
  "endDrag_update s t prev =
     (let u = prev @ replicate (Suc (max s t) - length prev) None
      in stripTrailing (u[s := u ! t, t := u ! s]))"
proof -
  define u where "u = prev @ replicate (Suc (max s t) - length prev) None"
  define v where "v = u[s := u ! t, t := u ! s]"
  have "endDrag_update s t prev = trimLoop v (int (length v) - 1)"
    unfolding endDrag_update_def Let_def padLoop_eq u_def v_def ..
  also have "\<dots> = stripTrailing v" unfolding stripTrailing_eq by (rule trimLoop_eq) simp
  finally show ?thesis unfolding Let_def u_def v_def .
qed

lemma slotAt_endDrag_update:
  "slotAt (endDrag_update s t prev) k =
     (if k = t then slotAt prev s else if k = s then slotAt prev t else slotAt prev k)"
proof -
  define u where "u = prev @ replicate (Suc (max s t) - length prev) None"
  have su: "slotAt u = slotAt prev" unfolding u_def by (rule slotAt_append_None)
  have ls: "s < length u" and lt: "t < length u" unfolding u_def by auto
  have "slotAt (endDrag_update s t prev) k = slotAt (u[s := u ! t, t := u ! s]) k"
    by (simp add: endDrag_update_eq Let_def u_def [symmetric] slotAt_stripTrailing)
  also have "\<dots> = (if k = t then slotAt u s else if k = s then slotAt u t else slotAt u k)"
    using ls lt by (simp add: slotAt_def nth_list_update)
  finally show ?thesis by (simp add: su)
qed

lemma noTrailingEmpty_endDrag_update: "noTrailingEmpty (endDrag_update s t prev)"
  by (simp add: endDrag_update_eq Let_def noTrailingEmpty_stripTrailing)

lemma endDrag_update_twice:
  "endDrag_update s t (endDrag_update s t prev) = stripTrailing prev"
proof (rule slotAt_eqI)
  show "noTrailingEmpty (endDrag_update s t (endDrag_update s t prev))"
    by (rule noTrailingEmpty_endDrag_update)
  show "noTrailingEmpty (stripTrailing prev)" by (rule noTrailingEmpty_stripTrailing)
  show "\<forall>k. slotAt (endDrag_update s t (endDrag_update s t prev)) k = slotAt (stripTrailing prev) k"
    by (simp add: slotAt_endDrag_update slotAt_stripTrailing)
qed

section \<open>Batch upload: what happens to empty slots\<close>

lemma filter_split_at:
  assumes "i < length xs" and "P (xs ! i)"
  shows "filter P xs = filter P (take i xs) @ xs ! i # filter P (drop (Suc i) xs)"
proof -
  have e: "xs = take i xs @ xs ! i # drop (Suc i) xs"
    using assms(1) by (rule id_take_nth_drop)
  have "filter P xs = filter P (take i xs @ xs ! i # drop (Suc i) xs)"
    by (rule arg_cong[OF e])
  also have "\<dots> = filter P (take i xs) @ xs ! i # filter P (drop (Suc i) xs)"
    using assms(2) by simp
  finally show ?thesis .
qed

lemma filter_nth_shift:
  assumes "i < length xs" and "P (xs ! i)"
  shows "length (filter P (take i xs)) < length (filter P xs) \<and>
         filter P xs ! length (filter P (take i xs)) = xs ! i"
proof -
  have "filter P xs = filter P (take i xs) @ xs ! i # filter P (drop (Suc i) xs)"
    using assms by (rule filter_split_at)
  then show ?thesis by (simp add: nth_append)
qed

lemma handleBatchUpload_update_no_None:
  "None \<notin> set (handleBatchUpload_update newPhotos prev)"
  by (auto simp: handleBatchUpload_update_def)

text \<open>
  C10. After a batch append the collection holds no empty slot at any position: the update
  filters every \<^verbatim>\<open>null\<close> out of the previous collection, interior ones included, and
  appends image references only. The handler runs the update for every non-empty
  selection of files (for an empty selection it returns before appending anything).
\<close>

theorem batch_upload_no_empty_slot:
  "None \<notin> set (handleBatchUpload_update newPhotos prev) \<and>
   (newPhotos \<noteq> [] \<longrightarrow> None \<notin> set (allCards (handleBatchUpload newPhotos st)))"
  using handleBatchUpload_update_no_None by (simp add: handleBatchUpload_def Let_def)

theorem batch_upload_no_empty_slot_witness:
  "[''c''] \<noteq> [] \<and>
   None \<notin> set (allCards (handleBatchUpload [''c'']
      \<lparr>allCards = [Some ''a'', None, Some ''b'', None], currentPage = 0, isGenerating = False,
       generatedImages = [], alerts = []\<rparr>))"
  using batch_upload_no_empty_slot [of "[''c'']" "[]"
      "\<lparr>allCards = [Some ''a'', None, Some ''b'', None], currentPage = 0, isGenerating = False,
       generatedImages = [], alerts = []\<rparr>"]
  by simp

text \<open>
  C1, as stated, fails: the claim keeps every non-trailing slot, present or empty, at its
  position. On the collection \<open>[a, empty, b]\<close> and the batch \<open>[c]\<close> the update gives
  \<open>[a, b, c]\<close>: the interior empty slot is gone and \<open>b\<close> has moved from position 2 to
  position 1, where stripping only the trailing empties gives \<open>[a, empty, b, c]\<close>.
\<close>

theorem batch_upload_drops_interior_empty:
  "handleBatchUpload_update [''c''] [Some ''a'', None, Some ''b'']
     = [Some ''a'', Some ''b'', Some ''c''] \<and>
   appendBatch_spec [''c''] [Some ''a'', None, Some ''b'']
     = [Some ''a'', None, Some ''b'', Some ''c''] \<and>
   handleBatchUpload_update [''c''] [Some ''a'', None, Some ''b''] ! 1
     \<noteq> [Some ''a'', None, Some ''b''] ! 1"
  by (simp add: handleBatchUpload_update_def appendBatch_spec_def stripTrailing_eq)

text \<open>
  C1, amended. The batch append removes every empty slot of the previous collection,
  interior as well as trailing, and then appends all given images in order:
  the new length is the number of present slots plus the number of images; image \<open>j\<close>
  of the batch lands right after the present slots, at offset \<open>j\<close>; a present slot at
  position \<open>i\<close> is kept, in order, at the position that counts the present slots before
  it; a collection without empty slots is kept as it is, position by position. The
  operation has no failing path; the handler applies it for every non-empty selection
  and leaves the collection alone for an empty one.
\<close>

theorem batch_upload_positions:
  "length (handleBatchUpload_update newPhotos prev)
     = length (filter (\<lambda>c. c \<noteq> None) prev) + length newPhotos \<and>
   (\<forall>j < length newPhotos.
      handleBatchUpload_update newPhotos prev ! (length (filter (\<lambda>c. c \<noteq> None) prev) + j)
        = Some (newPhotos ! j)) \<and>
   (\<forall>i < length prev. prev ! i \<noteq> None \<longrightarrow>
      handleBatchUpload_update newPhotos prev ! length (filter (\<lambda>c. c \<noteq> None) (take i prev))
        = prev ! i) \<and>
   (None \<notin> set prev \<longrightarrow> handleBatchUpload_update newPhotos prev = prev @ map Some newPhotos) \<and>
   allCards (handleBatchUpload newPhotos st)
     = (if newPhotos = [] then allCards st
        else handleBatchUpload_update newPhotos (allCards st))"
proof (intro conjI allI impI)
  let ?P = "\<lambda>c::card. c \<noteq> None"
  show "length (handleBatchUpload_update newPhotos prev) = length (filter ?P prev) + length newPhotos"
    by (simp add: handleBatchUpload_update_def)
  show "handleBatchUpload_update newPhotos prev ! (length (filter ?P prev) + j) = Some (newPhotos ! j)"
    if "j < length newPhotos" for j
    using that by (simp add: handleBatchUpload_update_def nth_append)
  show "handleBatchUpload_update newPhotos prev ! length (filter ?P (take i prev)) = prev ! i"
    if i: "i < length prev" and p: "prev ! i \<noteq> None" for i
    using filter_nth_shift[of i prev ?P, OF i p]
    by (simp add: handleBatchUpload_update_def nth_append)
  show "handleBatchUpload_update newPhotos prev = prev @ map Some newPhotos" if "None \<notin> set prev"
  proof -
    have "\<forall>c\<in>set prev. c \<noteq> None"
    proof (intro ballI notI)
      fix c :: card assume "c \<in> set prev" and "c = None"
      with that show False by simp
    qed
    then have "filter ?P prev = prev" by (simp only: filter_id_conv)
    then show ?thesis by (simp add: handleBatchUpload_update_def)
  qed
  show "allCards (handleBatchUpload newPhotos st)
     = (if newPhotos = [] then allCards st
        else handleBatchUpload_update newPhotos (allCards st))"
    by (simp add: handleBatchUpload_def Let_def)
qed

theorem batch_upload_positions_witness:
  "(1::nat) < length [''c'', ''d''] \<and>
   handleBatchUpload_update [''c'', ''d''] [Some ''a'', None, Some ''b''] ! 3 = Some ''d'' \<and>
   (2::nat) < length [Some ''a'', None, Some ''b''] \<and>
   [Some ''a'', None, Some ''b''] ! 2 \<noteq> None \<and>
   handleBatchUpload_update [''c'', ''d''] [Some ''a'', None, Some ''b''] ! 1 = Some ''b'' \<and>
   None \<notin> set [Some ''a'', Some ''b''] \<and>
   handleBatchUpload_update [''c'', ''d''] [Some ''a'', Some ''b'']
     = [Some ''a'', Some ''b'', Some ''c'', Some ''d'']"
  using batch_upload_positions [of "[''c'', ''d'']" "[Some ''a'', None, Some ''b'']"
      "\<lparr>allCards = [], currentPage = 0, isGenerating = False, generatedImages = [], alerts = []\<rparr>"]
    batch_upload_positions [of "[''c'', ''d'']" "[Some ''a'', Some ''b'']"
      "\<lparr>allCards = [], currentPage = 0, isGenerating = False, generatedImages = [], alerts = []\<rparr>"]
  by (simp add: handleBatchUpload_update_def)

section \<open>The page view\<close>

lemma js_slice_window:
  assumes "0 \<le> a"
  shows "js_slice xs a (a + int n) = take n (drop (nat a) xs)"
proof (cases "a \<le> int (length xs)")
  case True
  note le = this
  show ?thesis
  proof (cases "a + int n \<le> int (length xs)")
    case True
    with le assms show ?thesis by (simp add: js_slice_def Let_def min_def)
  next
    case False
    with le assms have "nat (int (length xs) - a) = length xs - nat a" by linarith
    moreover from False le assms have "length xs - nat a \<le> n" by linarith
    ultimately show ?thesis using False le assms by (simp add: js_slice_def Let_def min_def)
  qed
next
  case False
  with assms have "length xs \<le> nat a" by linarith
  with False assms show ?thesis by (simp add: js_slice_def Let_def min_def)
qed

lemma getCardsForPage_eq:
  assumes "0 \<le> pageIdx"
  shows "getCardsForPage cards pageIdx =
         Inr (take 9 (drop (nat pageIdx * 9) cards)
              @ replicate (9 - length (take 9 (drop (nat pageIdx * 9) cards))) None)"
proof -
  have n: "nat (pageIdx * 9) = nat pageIdx * 9" using assms by (simp add: nat_mult_distrib)
  have s: "js_slice cards (pageIdx * 9) (pageIdx * 9 + 9) = take 9 (drop (nat pageIdx * 9) cards)"
    using js_slice_window[of "pageIdx * 9" cards 9] assms n by simp
  show ?thesis
    by (simp add: getCardsForPage_def ITEMS_PER_PAGE_def Let_def s js_Array_fill_null_def
          nat_diff_distrib')
qed

text \<open>
  C8. For every collection and every page index \<open>p \<ge> 0\<close>, \<open>getCardsForPage\<close> returns
  (it does not throw) exactly 9 slots: slot \<open>k\<close> of the page is the collection's slot
  \<open>9 p + k\<close> where the collection has one, and empty beyond its end. The function takes
  the collection as a value and returns a new list, so it changes nothing.
\<close>

theorem page_has_nine_slots:
  "0 \<le> pageIdx \<Longrightarrow>
   \<exists>page. getCardsForPage cards pageIdx = Inr page \<and> length page = 9 \<and>
     (\<forall>k < 9. page ! k = (if nat pageIdx * 9 + k < length cards
                           then cards ! (nat pageIdx * 9 + k) else None))"
proof -
  assume p: "0 \<le> pageIdx"
  define w where "w = take 9 (drop (nat pageIdx * 9) cards)"
  define page where "page = w @ replicate (9 - length w) None"
  have lw: "length w = min 9 (length cards - nat pageIdx * 9)" by (simp add: w_def)
  have "getCardsForPage cards pageIdx = Inr page"
    using getCardsForPage_eq[OF p] by (simp add: page_def w_def)
  moreover have "length page = 9" by (simp add: page_def lw)
  moreover have "page ! k = (if nat pageIdx * 9 + k < length cards
                           then cards ! (nat pageIdx * 9 + k) else None)" if "k < 9" for k
  proof (cases "k < length w")
    case True
    then have "k < length cards - nat pageIdx * 9" by (simp add: lw)
    then have lt: "nat pageIdx * 9 + k < length cards" by arith
    then have le: "nat pageIdx * 9 \<le> length cards" by arith
    have "page ! k = w ! k" using True by (simp add: page_def nth_append)
    also have "\<dots> = cards ! (nat pageIdx * 9 + k)" using True le by (simp add: w_def)
    finally show ?thesis using lt by simp
  next
    case False
    then have "page ! k = None" using that by (simp add: page_def nth_append lw)
    moreover have "\<not> nat pageIdx * 9 + k < length cards" using False that by (simp add: lw)
    ultimately show ?thesis by simp
  qed
  ultimately show ?thesis by blast
qed

theorem page_has_nine_slots_witness:
  "(0::int) \<le> 1 \<and>
   getCardsForPage (map (\<lambda>c. Some [c]) ''abcdefghij'') 1
     = Inr (Some ''j'' # replicate 8 None)"
  using page_has_nine_slots [of 1 "map (\<lambda>c. Some [c]) ''abcdefghij''"]
  by (simp add: getCardsForPage_def js_slice_def js_Array_fill_null_def ITEMS_PER_PAGE_def Let_def)

section \<open>Removal: indices outside the collection\<close>

lemma js_splice_beyond:
  "int (length xs) \<le> start \<Longrightarrow> js_splice xs start 1 = xs"
  by (simp add: js_splice_def Let_def min_def)

lemma js_splice_negative:
  "start < 0 \<Longrightarrow> xs \<noteq> [] \<Longrightarrow>
   js_splice xs start 1 = take (nat (int (length xs) + start)) xs
                          @ drop (Suc (nat (int (length xs) + start))) xs"
proof -
  assume a: "start < 0" "xs \<noteq> []"
  then have l: "0 < length xs" by simp
  show ?thesis
  proof (cases "0 \<le> int (length xs) + start")
    case True
    then have "nat (int (length xs) + start + 1) = Suc (nat (int (length xs) + start))" by linarith
    with True a l show ?thesis by (simp add: js_splice_def Let_def min_def max_def)
  next
    case False
    with a l show ?thesis by (simp add: js_splice_def Let_def min_def max_def)
  qed
qed

lemma js_splice_inside:
  "0 \<le> start \<Longrightarrow> start < int (length xs) \<Longrightarrow>
   js_splice xs start 1 = take (nat start) xs @ drop (Suc (nat start)) xs"
proof -
  assume a: "0 \<le> start" "start < int (length xs)"
  then have "nat (start + 1) = Suc (nat start)" by linarith
  with a show ?thesis by (simp add: js_splice_def Let_def min_def max_def)
qed

text \<open>
  C3, as stated, fails: \<open>removeCard\<close> has no guard and no error outcome. With index \<open>-1\<close>
  on a two-slot collection, \<^verbatim>\<open>splice(-1, 1)\<close> counts from the end and removes the last
  slot: the removal proceeds on an index outside \<open>[0, length)\<close> and the collection
  changes.
\<close>

theorem remove_negative_index_proceeds:
  "allCards (removeCard (- 1)
     \<lparr>allCards = [Some ''a'', Some ''b''], currentPage = 0, isGenerating = False,
      generatedImages = [], alerts = []\<rparr>) = [Some ''a''] \<and>
   allCards (removeCard (- 1)
     \<lparr>allCards = [Some ''a'', Some ''b''], currentPage = 0, isGenerating = False,
      generatedImages = [], alerts = []\<rparr>) \<noteq> [Some ''a'', Some ''b'']"
  by (simp add: removeCard_def js_splice_def Let_def ITEMS_PER_PAGE_def)

text \<open>
  C3, amended. The remove operation never fails and raises no OutOfRange error. For a
  global index at or beyond the length it leaves the collection unchanged (the only
  effect is that the current page is pulled back to the last page). A negative global
  index is not rejected either: on a non-empty collection one slot is removed.
\<close>

theorem remove_out_of_range_is_silent:
  "(int (length (allCards st)) \<le> int (currentPage st) * 9 + indexOnPage \<longrightarrow>
      removeCard indexOnPage st
        = st\<lparr>currentPage := min (currentPage st) (totalPages (allCards st) - 1)\<rparr>) \<and>
   (int (currentPage st) * 9 + indexOnPage < 0 \<and> allCards st \<noteq> [] \<longrightarrow>
      length (allCards (removeCard indexOnPage st)) = length (allCards st) - 1)"
proof (intro conjI impI)
  assume "int (length (allCards st)) \<le> int (currentPage st) * 9 + indexOnPage"
  then have "js_splice (allCards st) (int (currentPage st) * 9 + indexOnPage) 1 = allCards st"
    by (rule js_splice_beyond)
  then show "removeCard indexOnPage st
        = st\<lparr>currentPage := min (currentPage st) (totalPages (allCards st) - 1)\<rparr>"
    by (cases st) (auto simp: removeCard_def Let_def ITEMS_PER_PAGE_def totalPages_def min_def)
next
  assume a: "int (currentPage st) * 9 + indexOnPage < 0 \<and> allCards st \<noteq> []"
  then have "js_splice (allCards st) (int (currentPage st) * 9 + indexOnPage) 1
     = take (nat (int (length (allCards st)) + (int (currentPage st) * 9 + indexOnPage))) (allCards st)
       @ drop (Suc (nat (int (length (allCards st)) + (int (currentPage st) * 9 + indexOnPage)))) (allCards st)"
    by (simp add: js_splice_negative)
  moreover have "nat (int (length (allCards st)) + (int (currentPage st) * 9 + indexOnPage)) < length (allCards st)"
  proof -
    from a have "0 < length (allCards st)" by simp
    with a show ?thesis by linarith
  qed
  ultimately show "length (allCards (removeCard indexOnPage st)) = length (allCards st) - 1"
    by (simp add: removeCard_def Let_def ITEMS_PER_PAGE_def)
qed

theorem remove_out_of_range_is_silent_witness:
  "int (length [Some ''a'', Some ''b'']) \<le> int 0 * 9 + 7 \<and>
   removeCard 7
     \<lparr>allCards = [Some ''a'', Some ''b''], currentPage = 0, isGenerating = False,
      generatedImages = [], alerts = []\<rparr>
   = \<lparr>allCards = [Some ''a'', Some ''b''], currentPage = 0, isGenerating = False,
      generatedImages = [], alerts = []\<rparr> \<and>
   int 0 * 9 + (- 1) < (0::int) \<and>
   length (allCards (removeCard (- 1)
     \<lparr>allCards = [Some ''a'', Some ''b''], currentPage = 0, isGenerating = False,
      generatedImages = [], alerts = []\<rparr>)) = 1"
  using remove_out_of_range_is_silent [of
     "\<lparr>allCards = [Some ''a'', Some ''b''], currentPage = 0, isGenerating = False,
      generatedImages = [], alerts = []\<rparr>" 7]
    remove_out_of_range_is_silent [of
     "\<lparr>allCards = [Some ''a'', Some ''b''], currentPage = 0, isGenerating = False,
      generatedImages = [], alerts = []\<rparr>" "- 1"]
  by (simp add: totalPages_def ceilPages_def ITEMS_PER_PAGE_def)

section \<open>Trailing empty slots after swap and remove\<close>

lemma removeCard_inside:
  assumes "0 \<le> int (currentPage st) * 9 + indexOnPage"
      and "int (currentPage st) * 9 + indexOnPage < int (length (allCards st))"
  shows "allCards (removeCard indexOnPage st)
         = take (nat (int (currentPage st) * 9 + indexOnPage)) (allCards st)
           @ drop (Suc (nat (int (currentPage st) * 9 + indexOnPage))) (allCards st)"
proof -
  have "0 \<le> int (currentPage st) * 9 + indexOnPage \<Longrightarrow>
        int (currentPage st) * 9 + indexOnPage < int (length (allCards st)) \<Longrightarrow>
        nat (int (currentPage st) * 9 + indexOnPage + 1) = Suc (nat (int (currentPage st) * 9 + indexOnPage))"
    by linarith
  with assms show ?thesis
    by (simp add: removeCard_def js_splice_def Let_def ITEMS_PER_PAGE_def min_def max_def)
qed

lemma noTrailingEmpty_remove:
  assumes g: "g < length cards"
  shows "noTrailingEmpty (take g cards @ drop (Suc g) cards)
         = (if Suc g = length cards then (g = 0 \<or> cards ! (g - 1) \<noteq> None)
            else last cards \<noteq> None)"
proof (cases "Suc g = length cards")
  case True
  then have d: "drop (Suc g) cards = []" by simp
  show ?thesis
  proof (cases "g = 0")
    case True
    with d \<open>Suc g = length cards\<close> show ?thesis by (simp add: noTrailingEmpty_def)
  next
    case False
    then have tn: "take g cards \<noteq> []" using g by auto
    have lg: "length (take g cards) = g" using g by simp
    have "last (take g cards) = take g cards ! (length (take g cards) - 1)"
      using tn by (rule last_conv_nth)
    also have "\<dots> = take g cards ! (g - 1)" by (simp only: lg)
    also have "\<dots> = cards ! (g - 1)" using False by simp
    finally have "last (take g cards) = cards ! (g - 1)" .
    with tn show ?thesis using d True False by (simp add: noTrailingEmpty_def)
  qed
next
  case False
  with g have lt: "Suc g < length cards" by simp
  then have ne: "drop (Suc g) cards \<noteq> []" by simp
  have "last (drop (Suc g) cards) = last cards" using lt by (simp add: last_drop)
  with ne False show ?thesis by (simp add: noTrailingEmpty_def)
qed

text \<open>
  C2, as stated, fails for remove: \<open>removeCard\<close> only splices the slot out and trims
  nothing. Removing the last slot of \<open>[a, empty, b]\<close> leaves \<open>[a, empty]\<close>, whose last
  slot is empty.
\<close>

theorem remove_leaves_trailing_empty:
  "allCards (removeCard 2
     \<lparr>allCards = [Some ''a'', None, Some ''b''], currentPage = 0, isGenerating = False,
      generatedImages = [], alerts = []\<rparr>) = [Some ''a'', None] \<and>
   \<not> noTrailingEmpty (allCards (removeCard 2
     \<lparr>allCards = [Some ''a'', None, Some ''b''], currentPage = 0, isGenerating = False,
      generatedImages = [], alerts = []\<rparr>))"
  by (simp add: removeCard_def js_splice_def Let_def ITEMS_PER_PAGE_def noTrailingEmpty_def)

text \<open>
  C2, amended. After every swap operation the collection has no trailing run of empty
  slots: its last slot, if any, is present. A remove operation at an index inside the
  collection deletes that slot and trims nothing: when a slot other than the last is
  removed the last slot stays the last slot, and when the last slot is removed the slot
  before it becomes the last; the result has no trailing empty slot exactly when that
  slot is present (or nothing is left).
\<close>

theorem no_trailing_empty_after_swap:
  "noTrailingEmpty (endDrag_update sourceGlobalIndex targetGlobalIndex prev) \<and>
   (0 \<le> int (currentPage st) * 9 + indexOnPage \<and>
    int (currentPage st) * 9 + indexOnPage < int (length (allCards st)) \<longrightarrow>
      noTrailingEmpty (allCards (removeCard indexOnPage st))
      = (if nat (int (currentPage st) * 9 + indexOnPage) + 1 = length (allCards st)
         then (int (currentPage st) * 9 + indexOnPage = 0 \<or>
               allCards st ! (nat (int (currentPage st) * 9 + indexOnPage) - 1) \<noteq> None)
         else last (allCards st) \<noteq> None))"
proof (intro conjI impI)
  show "noTrailingEmpty (endDrag_update sourceGlobalIndex targetGlobalIndex prev)"
    by (rule noTrailingEmpty_endDrag_update)
next
  define g where "g = int (currentPage st) * 9 + indexOnPage"
  assume "0 \<le> int (currentPage st) * 9 + indexOnPage \<and>
    int (currentPage st) * 9 + indexOnPage < int (length (allCards st))"
  then have a: "0 \<le> g" "g < int (length (allCards st))" by (simp_all add: g_def)
  then have l: "nat g < length (allCards st)" by linarith
  have z: "(g = 0) = (nat g = 0)" using a by linarith
  have "allCards (removeCard indexOnPage st)
        = take (nat g) (allCards st) @ drop (Suc (nat g)) (allCards st)"
    using removeCard_inside[of st indexOnPage] a by (simp add: g_def)
  then show "noTrailingEmpty (allCards (removeCard indexOnPage st))
      = (if nat (int (currentPage st) * 9 + indexOnPage) + 1 = length (allCards st)
         then (int (currentPage st) * 9 + indexOnPage = 0 \<or>
               allCards st ! (nat (int (currentPage st) * 9 + indexOnPage) - 1) \<noteq> None)
         else last (allCards st) \<noteq> None)"
    using noTrailingEmpty_remove[OF l] z by (simp add: g_def [symmetric])
qed

theorem no_trailing_empty_after_swap_witness:
  "noTrailingEmpty (endDrag_update 0 1 [Some ''a'', None]) \<and>
   endDrag_update 0 1 [Some ''a'', None] = [None, Some ''a''] \<and>
   (0::int) \<le> int 0 * 9 + 1 \<and> int 0 * 9 + 1 < int (length [Some ''a'', None, Some ''b'']) \<and>
   noTrailingEmpty (allCards (removeCard 1
     \<lparr>allCards = [Some ''a'', None, Some ''b''], currentPage = 0, isGenerating = False,
      generatedImages = [], alerts = []\<rparr>))"
  using no_trailing_empty_after_swap [of 0 1 "[Some ''a'', None]"
     "\<lparr>allCards = [Some ''a'', None, Some ''b''], currentPage = 0, isGenerating = False,
      generatedImages = [], alerts = []\<rparr>" 1]
  by (simp add: endDrag_update_eq Let_def stripTrailing_eq)

section \<open>Swapping twice\<close>

text \<open>
  C6. For every collection and every pair of distinct indices, swapping the two indices
  twice gives back the original collection with its trailing empty slots stripped;
  stripping is idempotent; so a collection with no trailing empty slot is restored
  exactly.
\<close>

theorem swap_twice_restores:
  "sourceGlobalIndex \<noteq> targetGlobalIndex \<Longrightarrow>
   endDrag_update sourceGlobalIndex targetGlobalIndex
     (endDrag_update sourceGlobalIndex targetGlobalIndex prev) = stripTrailing prev \<and>
   stripTrailing (stripTrailing prev) = stripTrailing prev \<and>
   (noTrailingEmpty prev \<longrightarrow>
      endDrag_update sourceGlobalIndex targetGlobalIndex
        (endDrag_update sourceGlobalIndex targetGlobalIndex prev) = prev)"
proof (intro conjI impI)
  show twice: "endDrag_update sourceGlobalIndex targetGlobalIndex
     (endDrag_update sourceGlobalIndex targetGlobalIndex prev) = stripTrailing prev"
    by (rule endDrag_update_twice)
  show "stripTrailing (stripTrailing prev) = stripTrailing prev"
    using noTrailingEmpty_stripTrailing by (rule stripTrailing_id)
  assume "noTrailingEmpty prev"
  then have "stripTrailing prev = prev" by (rule stripTrailing_id)
  with twice show "endDrag_update sourceGlobalIndex targetGlobalIndex
     (endDrag_update sourceGlobalIndex targetGlobalIndex prev) = prev"
    by simp
qed

theorem swap_twice_restores_witness:
  "(1::nat) \<noteq> 2 \<and> noTrailingEmpty [Some ''a'', None, Some ''b''] \<and>
   endDrag_update 1 2 [Some ''a'', None, Some ''b''] = [Some ''a'', Some ''b''] \<and>
   endDrag_update 1 2 (endDrag_update 1 2 [Some ''a'', None, Some ''b''])
     = [Some ''a'', None, Some ''b'']"
  using swap_twice_restores [of 1 2 "[Some ''a'', None, Some ''b'']"]
  by (simp add: noTrailingEmpty_def endDrag_update_eq Let_def stripTrailing_eq)

section \<open>Swapping inside the collection\<close>

lemma endDrag_update_in_place:
  assumes "noTrailingEmpty (prev[s := prev ! t, t := prev ! s])"
      and "s < length prev" and "t < length prev"
  shows "endDrag_update s t prev = prev[s := prev ! t, t := prev ! s]"
proof -
  have "Suc (max s t) - length prev = 0" using assms(2,3) by simp
  then show ?thesis
    using assms(1) by (simp add: endDrag_update_eq Let_def stripTrailing_id)
qed

text \<open>
  C7, as stated, fails: in \<open>[a, empty, b]\<close> the last slot is present and the indices 1
  and 2 are distinct and in range, but the swap moves the empty slot to the end, where
  it is trimmed: the result is \<open>[a, b]\<close>, of length 2.
\<close>

theorem swap_shrinks_collection:
  "endDrag_update 1 2 [Some ''a'', None, Some ''b''] = [Some ''a'', Some ''b''] \<and>
   length (endDrag_update 1 2 [Some ''a'', None, Some ''b''])
   \<noteq> length [Some ''a'', None, Some ''b'']"
  by (simp add: endDrag_update_eq Let_def stripTrailing_eq)

text \<open>
  C7, amended. For a swap of two distinct in-range indices in a collection whose last
  slot is present, where the swap does not move an empty slot into the last position
  (neither index is the last one, or the slot exchanged with the last one is present),
  the contents at the two positions are exchanged, every other position is unchanged and
  the length is unchanged.
\<close>

theorem swap_in_place:
  assumes "i < length prev" and "j < length prev" and "i \<noteq> j"
      and "last prev \<noteq> None"
      and "i = length prev - 1 \<longrightarrow> prev ! j \<noteq> None"
      and "j = length prev - 1 \<longrightarrow> prev ! i \<noteq> None"
  shows "length (endDrag_update i j prev) = length prev \<and>
         endDrag_update i j prev ! i = prev ! j \<and>
         endDrag_update i j prev ! j = prev ! i \<and>
         (\<forall>k < length prev. k \<noteq> i \<and> k \<noteq> j \<longrightarrow> endDrag_update i j prev ! k = prev ! k)"
proof -
  let ?u = "prev[i := prev ! j, j := prev ! i]"
  have ne: "prev \<noteq> []" using assms(1) by auto
  have "last ?u = ?u ! (length prev - 1)" using ne by (simp add: last_conv_nth)
  also have "\<dots> \<noteq> None"
    using assms ne by (auto simp: nth_list_update last_conv_nth)
  finally have "noTrailingEmpty ?u" by (simp add: noTrailingEmpty_def)
  then have "endDrag_update i j prev = ?u"
    using assms(1,2) by (rule endDrag_update_in_place)
  then show ?thesis using assms(1,2,3) by (simp add: nth_list_update)
qed

theorem swap_in_place_witness:
  "(0::nat) < length [Some ''a'', None, Some ''b''] \<and>
   (2::nat) < length [Some ''a'', None, Some ''b''] \<and> (0::nat) \<noteq> 2 \<and>
   last [Some ''a'', None, Some ''b''] \<noteq> None \<and>
   [Some ''a'', None, Some ''b''] ! 0 \<noteq> None \<and>
   length (endDrag_update 0 2 [Some ''a'', None, Some ''b'']) = 3 \<and>
   endDrag_update 0 2 [Some ''a'', None, Some ''b''] ! 0 = Some ''b'' \<and>
   endDrag_update 0 2 [Some ''a'', None, Some ''b''] ! 2 = Some ''a'' \<and>
   endDrag_update 0 2 [Some ''a'', None, Some ''b''] ! 1 = None"
  using swap_in_place [of 0 "[Some ''a'', None, Some ''b'']" 2]
  by simp

section \<open>Export: the loop and its observer\<close>

lemma exportLoop_done:
  "\<not> i < pages \<Longrightarrow> exportLoop R refs pages i images w = (Inr images, w)"
  by (subst exportLoop.simps) simp

lemma exportLoop_skip:
  "i < pages \<Longrightarrow> \<not> refs i \<Longrightarrow>
   exportLoop R refs pages i images w = exportLoop R refs pages (Suc i) images w"
  by (subst exportLoop.simps) simp

lemma exportLoop_throw:
  "i < pages \<Longrightarrow> refs i \<Longrightarrow> R i w = (Inl e, w') \<Longrightarrow>
   exportLoop R refs pages i images w = (Inl e, w')"
  by (subst exportLoop.simps) simp

lemma exportLoop_next:
  "i < pages \<Longrightarrow> refs i \<Longrightarrow> R i w = (Inr png, w') \<Longrightarrow>
   exportLoop R refs pages i images w = exportLoop R refs pages (Suc i) (images @ [png]) w'"
  by (subst exportLoop.simps) simp

lemma logged_apply:
  "R i w = (r, w') \<Longrightarrow> logged R i (w, tr) = (r, (w', tr @ [(i, r)]))"
  by (simp add: logged_def)

lemma observedRun_aux: "pages - i = n \<Longrightarrow> observedRun R refs pages i images w tr"
proof (induction n arbitrary: i images w tr)
  case (0 i images w tr)
  then have d: "\<not> i < pages" by simp
  then have u: "[i..<pages] = []" by simp
  show ?case unfolding observedRun_def
    by (rule exI[of _ "Inr images"], rule exI[of _ w], rule exI[of _ "[]"])
       (simp add: exportLoop_done[OF d] u)
next
  case (Suc n i images w tr)
  then have lt: "i < pages" and n: "pages - Suc i = n" by simp_all
  have up: "[i..<pages] = i # [Suc i..<pages]" using lt by (rule upt_conv_Cons)
  show ?case
  proof (cases "refs i")
    case False
    from Suc(1)[OF n, of images w tr] obtain res w' new where
      a: "exportLoop (logged R) refs pages (Suc i) images (w, tr) = (res, (w', tr @ new))"
      and b: "exportLoop R refs pages (Suc i) images w = (res, w')"
      and c: "\<forall>out. res = Inr out \<longrightarrow>
          (\<exists>rs. out = images @ rs \<and> map fst new = filter refs [Suc i..<pages] \<and>
                map snd new = map Inr rs)"
      and d: "\<forall>e. res = Inl e \<longrightarrow>
          (\<exists>pre j. new = pre @ [(j, Inl e)] \<and> (\<forall>x \<in> set pre. \<exists>s. snd x = Inr s))"
      unfolding observedRun_def by blast
    have a': "exportLoop (logged R) refs pages i images (w, tr) = (res, (w', tr @ new))"
      using a by (simp add: exportLoop_skip[where refs=refs and i=i, OF lt False])
    have b': "exportLoop R refs pages i images w = (res, w')"
      using b by (simp add: exportLoop_skip[where refs=refs and i=i, OF lt False])
    have c': "\<forall>out. res = Inr out \<longrightarrow>
          (\<exists>rs. out = images @ rs \<and> map fst new = filter refs [i..<pages] \<and>
                map snd new = map Inr rs)"
      using c False by (simp add: up)
    show ?thesis unfolding observedRun_def
      using a' b' c' d by blast
  next
    case True
    obtain r w1 where r: "R i w = (r, w1)" by (cases "R i w")
    have lr: "logged R i (w, tr) = (r, (w1, tr @ [(i, r)]))" using r by (rule logged_apply)
    show ?thesis
    proof (cases r)
      case (Inl e)
      have "exportLoop (logged R) refs pages i images (w, tr) = (Inl e, (w1, tr @ [(i, Inl e)]))"
        using exportLoop_throw[where refs=refs and i=i and R="logged R" and w="(w, tr)" and e=e
            and w'="(w1, tr @ [(i, Inl e)])" and images=images, OF lt True] lr Inl
        by simp
      moreover have "exportLoop R refs pages i images w = (Inl e, w1)"
        using exportLoop_throw[where refs=refs and i=i and R=R and w=w and e=e and w'=w1
            and images=images, OF lt True] r Inl by simp
      moreover have "\<exists>pre j. [(i, Inl e)] = pre @ [(j, Inl e)] \<and>
                       (\<forall>x \<in> set pre. \<exists>s. snd x = Inr s)"
        by (intro exI[of _ "[]"] exI[of _ i]) simp
      ultimately show ?thesis unfolding observedRun_def
        by (intro exI[of _ "Inl e"] exI[of _ w1] exI[of _ "[(i, Inl e)]"]) simp
    next
      case (Inr png)
      from Suc(1)[OF n, of "images @ [png]" w1 "tr @ [(i, Inr png)]"] obtain res w' new where
        a: "exportLoop (logged R) refs pages (Suc i) (images @ [png]) (w1, tr @ [(i, Inr png)])
              = (res, (w', (tr @ [(i, Inr png)]) @ new))"
        and b: "exportLoop R refs pages (Suc i) (images @ [png]) w1 = (res, w')"
        and c: "\<forall>out. res = Inr out \<longrightarrow>
          (\<exists>rs. out = (images @ [png]) @ rs \<and> map fst new = filter refs [Suc i..<pages] \<and>
                map snd new = map Inr rs)"
        and d: "\<forall>e. res = Inl e \<longrightarrow>
          (\<exists>pre j. new = pre @ [(j, Inl e)] \<and> (\<forall>x \<in> set pre. \<exists>s. snd x = Inr s))"
        unfolding observedRun_def by blast
      have e1: "exportLoop (logged R) refs pages i images (w, tr)
                 = (res, (w', tr @ ((i, Inr png) # new)))"
        using exportLoop_next[where refs=refs and i=i and R="logged R" and w="(w, tr)" and png=png
            and w'="(w1, tr @ [(i, Inr png)])" and images=images, OF lt True]
          lr Inr a by simp
      have e2: "exportLoop R refs pages i images w = (res, w')"
        using exportLoop_next[where refs=refs and i=i and R=R and w=w and png=png and w'=w1
            and images=images, OF lt True] r Inr b by simp
      have e3: "\<forall>out. res = Inr out \<longrightarrow>
          (\<exists>rs. out = images @ rs \<and> map fst ((i, Inr png) # new) = filter refs [i..<pages] \<and>
                map snd ((i, Inr png) # new) = map Inr rs)"
      proof (intro allI impI)
        fix out assume "res = Inr out"
        with c obtain rs where "out = (images @ [png]) @ rs"
          "map fst new = filter refs [Suc i..<pages]" "map snd new = map Inr rs" by blast
        then show "\<exists>rs. out = images @ rs \<and> map fst ((i, Inr png) # new) = filter refs [i..<pages] \<and>
                map snd ((i, Inr png) # new) = map Inr rs"
          using True by (intro exI[of _ "png # rs"]) (simp add: up)
      qed
      have e4: "\<forall>e. res = Inl e \<longrightarrow>
          (\<exists>pre j. (i, Inr png) # new = pre @ [(j, Inl e)] \<and> (\<forall>x \<in> set pre. \<exists>s. snd x = Inr s))"
      proof (intro allI impI)
        fix e assume "res = Inl e"
        with d obtain pre j where "new = pre @ [(j, Inl e)]" "\<forall>x \<in> set pre. \<exists>s. snd x = Inr s"
          by blast
        then show "\<exists>pre j. (i, Inr png) # new = pre @ [(j, Inl e)] \<and> (\<forall>x \<in> set pre. \<exists>s. snd x = Inr s)"
          by (intro exI[of _ "(i, Inr png) # pre"] exI[of _ j]) simp
      qed
      show ?thesis unfolding observedRun_def
        using e1 e2 e3 e4 by blast
    qed
  qed
qed

lemma observedRun_all: "observedRun R refs pages i images w tr"
  using observedRun_aux[of pages i "pages - i"] by simp

lemma exportLoop_logged_from_start:
  "\<exists>res w' new.
     exportLoop (logged R) refs pages 0 [] (w, []) = (res, (w', new)) \<and>
     exportLoop R refs pages 0 [] w = (res, w') \<and>
     (\<forall>out. res = Inr out \<longrightarrow> map fst new = filter refs [0..<pages] \<and> map snd new = map Inr out) \<and>
     (\<forall>e. res = Inl e \<longrightarrow>
        (\<exists>pre j. new = pre @ [(j, Inl e)] \<and> (\<forall>x \<in> set pre. \<exists>s. snd x = Inr s)))"
  using observedRun_all[of R refs pages 0 "[]" w "[]"] unfolding observedRun_def
  by (simp only: append_Nil) blast

section \<open>Export: a throw aborts the run\<close>

text \<open>
  C4. If the rasterisation of any page throws during an export run, the run aborts there
  (the throwing request is the last one made), \<open>generatedImages\<close> is left as it was, so
  no prefix of the images produced so far becomes the export result, one failure alert
  is shown and \<open>isGenerating\<close> is cleared.
\<close>

theorem export_aborts_on_throw:
  assumes run: "handleGenerateAll html2canvasLoaded (logged rasterize) exportRefs st (w, [])
                  = (st', (w', hist))"
      and thrown: "(i, Inl e) \<in> set hist"
  shows "generatedImages st' = generatedImages st \<and>
         alerts st' = alerts st @ [AlertFailed] \<and>
         \<not> isGenerating st' \<and>
         last hist = (i, Inl e) \<and>
         handleGenerateAll html2canvasLoaded rasterize exportRefs st w = (st', w')"
proof -
  obtain res w1 new where
    a: "exportLoop (logged rasterize) exportRefs (totalPages (allCards st)) 0 [] (w, [])
          = (res, (w1, new))"
    and b: "exportLoop rasterize exportRefs (totalPages (allCards st)) 0 [] w = (res, w1)"
    and c: "\<forall>out. res = Inr out \<longrightarrow>
              map fst new = filter exportRefs [0..<totalPages (allCards st)] \<and>
              map snd new = map Inr out"
    and d: "\<forall>e. res = Inl e \<longrightarrow>
              (\<exists>pre j. new = pre @ [(j, Inl e)] \<and> (\<forall>x \<in> set pre. \<exists>s. snd x = Inr s))"
    using exportLoop_logged_from_start[of rasterize exportRefs "totalPages (allCards st)" w]
    by blast
  have loaded: "html2canvasLoaded"
  proof (rule ccontr)
    assume "\<not> html2canvasLoaded"
    with run have "hist = []" by (simp add: handleGenerateAll_def)
    with thrown show False by simp
  qed
  have ne: "length (allCards st) \<noteq> 0"
  proof
    assume "length (allCards st) = 0"
    with run loaded have "hist = []" by (simp add: handleGenerateAll_def)
    with thrown show False by simp
  qed
  show ?thesis
  proof (cases res)
    case (Inr out)
    with run loaded ne a have "hist = new"
      by (simp add: handleGenerateAll_def Let_def)
    moreover from c Inr have "map snd new = map Inr out" by simp
    ultimately have "snd (i, Inl e) \<in> set (map Inr out)"
      using thrown by (metis image_eqI set_map)
    then show ?thesis by auto
  next
    case (Inl e')
    with d obtain pre j where
      n: "new = pre @ [(j, Inl e')]" and p: "\<forall>x \<in> set pre. \<exists>s. snd x = Inr s" by blast
    from run loaded ne a Inl have h: "hist = new"
      and s: "st' = st\<lparr>isGenerating := True, alerts := alerts st @ [AlertFailed], isGenerating := False\<rparr>"
      and w: "w' = w1"
      by (simp_all add: handleGenerateAll_def Let_def)
    have "(i, Inl e) \<notin> set pre"
    proof
      assume m: "(i, Inl e) \<in> set pre"
      from bspec[OF p m] show False by simp
    qed
    with thrown h n have l: "(i, Inl e) = (j, Inl e')" by simp
    have u: "handleGenerateAll html2canvasLoaded rasterize exportRefs st w = (st', w')"
      using loaded ne b Inl s w by (simp add: handleGenerateAll_def Let_def)
    show ?thesis using s h n l u by simp
  qed
qed

theorem export_aborts_on_throw_witness:
  "handleGenerateAll True
     (logged (\<lambda>i w. (if i = 1 then Inl ''SecurityError'' else Inr ''png'', w)))
     (\<lambda>i. True)
     \<lparr>allCards = replicate 19 (Some ''p''), currentPage = 0, isGenerating = False,
      generatedImages = [''earlier''], alerts = []\<rparr> ((), [])
   = (\<lparr>allCards = replicate 19 (Some ''p''), currentPage = 0, isGenerating = False,
       generatedImages = [''earlier''], alerts = [AlertFailed]\<rparr>,
      ((), [(0, Inr ''png''), (1, Inl ''SecurityError'')])) \<and>
   (1, Inl ''SecurityError'') \<in> set [(0::nat, Inr ''png''), (1, Inl ''SecurityError'')]"
proof -
  have run: "handleGenerateAll True
     (logged (\<lambda>i w. (if i = 1 then Inl ''SecurityError'' else Inr ''png'', w)))
     (\<lambda>i. True)
     \<lparr>allCards = replicate 19 (Some ''p''), currentPage = 0, isGenerating = False,
      generatedImages = [''earlier''], alerts = []\<rparr> ((), [])
   = (\<lparr>allCards = replicate 19 (Some ''p''), currentPage = 0, isGenerating = False,
       generatedImages = [''earlier''], alerts = [AlertFailed]\<rparr>,
      ((), [(0, Inr ''png''), (1, Inl ''SecurityError'')]))"
    by (simp add: handleGenerateAll_def totalPages_def ceilPages_def ITEMS_PER_PAGE_def
          logged_def exportLoop.simps Let_def)
  have thrown: "(1, Inl ''SecurityError'') \<in> set [(0::nat, Inr ''png''), (1, Inl ''SecurityError'')]"
    by simp
  from export_aborts_on_throw[OF run thrown] run thrown show ?thesis by simp
qed

section \<open>Export: one image per page\<close>

text \<open>
  C5, as stated, fails: a page whose off-screen element is absent is skipped by the guard
  of line 459 and the run still ends normally. With 10 slots (2 pages) and an element
  for page 0 only, the export succeeds with one image, not two.
\<close>

theorem export_skips_page_without_element:
  "handleGenerateAll True (\<lambda>i w. (Inr ''png'' :: unit + string, w)) (\<lambda>i. i = 0)
     \<lparr>allCards = replicate 10 (Some ''p''), currentPage = 0, isGenerating = False,
      generatedImages = [], alerts = []\<rparr> ()
   = (\<lparr>allCards = replicate 10 (Some ''p''), currentPage = 0, isGenerating = False,
       generatedImages = [''png''], alerts = []\<rparr>, ()) \<and>
   max 1 \<lceil>real (length (replicate 10 (Some ''p''))) / 9\<rceil> = (2 :: int)"
  by (simp add: handleGenerateAll_def totalPages_def ceilPages_def ITEMS_PER_PAGE_def
          exportLoop.simps Let_def)

text \<open>
  C5, amended. On a successful export of a collection with \<open>n\<close> slots in which every
  page's off-screen element is present, the produced image list has exactly
  \<open>max(1, ceil(n/9))\<close> entries, one per page: the pages are rasterised one after the
  other in ascending page-index order, each in the world left by the one before, and
  entry \<open>k\<close> of the list is what the rasterisation of page \<open>k\<close> returned. (A page whose
  element is absent is skipped without an error.)
\<close>

theorem export_one_image_per_page:
  assumes loaded: "html2canvasLoaded"
      and ne: "allCards st \<noteq> []"
      and refs: "\<forall>i < totalPages (allCards st). exportRefs i"
      and run: "handleGenerateAll html2canvasLoaded (logged rasterize) exportRefs st (w, [])
                  = (st', (w', hist))"
      and ok: "\<forall>x \<in> set hist. \<exists>png. snd x = Inr png"
  shows "int (length (generatedImages st')) = max 1 \<lceil>real (length (allCards st)) / 9\<rceil> \<and>
         map fst hist = [0..<length (generatedImages st')] \<and>
         map snd hist = map Inr (generatedImages st') \<and>
         alerts st' = alerts st \<and> \<not> isGenerating st' \<and>
         handleGenerateAll html2canvasLoaded rasterize exportRefs st w = (st', w')"
proof -
  obtain res w1 new where
    a: "exportLoop (logged rasterize) exportRefs (totalPages (allCards st)) 0 [] (w, [])
          = (res, (w1, new))"
    and b: "exportLoop rasterize exportRefs (totalPages (allCards st)) 0 [] w = (res, w1)"
    and c: "\<forall>out. res = Inr out \<longrightarrow>
              map fst new = filter exportRefs [0..<totalPages (allCards st)] \<and>
              map snd new = map Inr out"
    and d: "\<forall>e. res = Inl e \<longrightarrow>
              (\<exists>pre j. new = pre @ [(j, Inl e)] \<and> (\<forall>x \<in> set pre. \<exists>s. snd x = Inr s))"
    using exportLoop_logged_from_start[of rasterize exportRefs "totalPages (allCards st)" w]
    by blast
  from ne have ne': "length (allCards st) \<noteq> 0" by simp
  have f: "filter exportRefs [0..<totalPages (allCards st)] = [0..<totalPages (allCards st)]"
    using refs by (simp add: filter_id_conv)
  show ?thesis
  proof (cases res)
    case (Inl e)
    with d obtain pre j where n: "new = pre @ [(j, Inl e)]" by blast
    from run loaded ne' a Inl have "hist = new" by (simp add: handleGenerateAll_def Let_def)
    with n have m: "(j, Inl e) \<in> set hist" by simp
    from bspec[OF ok m] show ?thesis by simp
  next
    case (Inr out)
    from run loaded ne' a Inr have h: "hist = new"
      and s: "st' = st\<lparr>isGenerating := True, generatedImages := out, isGenerating := False\<rparr>"
      and w: "w' = w1"
      by (simp_all add: handleGenerateAll_def Let_def)
    from c Inr f have m1: "map fst new = [0..<totalPages (allCards st)]"
      and m2: "map snd new = map Inr out" by simp_all
    have "length out = length (map snd new)" using m2 by simp
    also have "\<dots> = length (map fst new)" by simp
    also have "\<dots> = totalPages (allCards st)" using m1 by simp
    finally have len: "length out = totalPages (allCards st)" .
    have "int (totalPages (allCards st)) = max 1 (int (ceilPages (length (allCards st))))"
      by (simp add: totalPages_def)
    then have cl: "int (length out) = max 1 \<lceil>real (length (allCards st)) / 9\<rceil>"
      using len by (simp only: ceilPages_ceiling)
    have u: "handleGenerateAll html2canvasLoaded rasterize exportRefs st w = (st', w')"
      using loaded ne' b Inr s w by (simp add: handleGenerateAll_def Let_def)
    show ?thesis using s h m1 m2 len cl u by simp
  qed
qed

theorem export_one_image_per_page_witness:
  "True \<and> replicate 10 (Some ''p'') \<noteq> [] \<and>
   handleGenerateAll True (logged (\<lambda>i w. (Inr (if i = 0 then ''png0'' else ''png1'') :: unit + string, w)))
     (\<lambda>i. True)
     \<lparr>allCards = replicate 10 (Some ''p''), currentPage = 0, isGenerating = False,
      generatedImages = [], alerts = []\<rparr> ((), [])
   = (\<lparr>allCards = replicate 10 (Some ''p''), currentPage = 0, isGenerating = False,
       generatedImages = [''png0'', ''png1''], alerts = []\<rparr>,
      ((), [(0, Inr ''png0''), (1, Inr ''png1'')])) \<and>
   int (length [''png0'', ''png1'']) = max 1 \<lceil>real (length (replicate 10 (Some ''p''))) / 9\<rceil>"
proof -
  let ?st = "\<lparr>allCards = replicate 10 (Some ''p''), currentPage = 0, isGenerating = False,
      generatedImages = [], alerts = []\<rparr>"
  have ne: "allCards ?st \<noteq> []" by simp
  have refs: "\<forall>i < totalPages (allCards ?st). (\<lambda>i. True) i" by simp
  have run: "handleGenerateAll True (logged (\<lambda>i w. (Inr (if i = 0 then ''png0'' else ''png1'') :: unit + string, w)))
     (\<lambda>i. True) ?st ((), [])
   = (\<lparr>allCards = replicate 10 (Some ''p''), currentPage = 0, isGenerating = False,
       generatedImages = [''png0'', ''png1''], alerts = []\<rparr>,
      ((), [(0, Inr ''png0''), (1, Inr ''png1'')]))"
    by (simp add: handleGenerateAll_def totalPages_def ceilPages_def ITEMS_PER_PAGE_def
          logged_def exportLoop.simps Let_def)
  have ok: "\<forall>x \<in> set [(0::nat, Inr ''png0'' :: unit + string), (1, Inr ''png1'')]. \<exists>png. snd x = Inr png"
    by simp
  from export_one_image_per_page[OF TrueI ne refs run ok] run show ?thesis by simp
qed

section \<open>Drag gesture: cancelling the long press\<close>

lemma fireDue_no_timers: "timers st = [] \<Longrightarrow> fireDue hitTest now st = st"
  by (simp add: fireDue_def)

lemma fireDue_not_due:
  "timers st = [(ident, dueAt, callback)] \<Longrightarrow> now < dueAt \<Longrightarrow> fireDue hitTest now st = st"
  by (simp add: fireDue_def)

lemma run_append: "run hitTest (xs @ ys) st = run hitTest ys (run hitTest xs st)"
  by (induction xs arbitrary: st) simp_all

lemma press_arms:
  assumes "timers st = []" and "\<not> isDraggingRef st" and "\<not> isPreviewMode st"
  shows "armedOrCancelled t0 x0 y0 (allCards st) (dragState st)
           (step hitTest (t0, TouchStart x0 y0 (Some slot)) st)"
  using assms
  by (simp add: step_def fireDue_no_timers startDrag_def setTimeout_def Let_def
        armedOrCancelled_def)

lemma move_keeps_armedOrCancelled:
  assumes a: "armedOrCancelled t0 x0 y0 cards ds st" and m: "isMove ev" and t: "t < t0 + 400"
  shows "armedOrCancelled t0 x0 y0 cards ds (step hitTest (t, ev) st)"
proof -
  have f: "fireDue hitTest t st = st"
  proof (cases "timers st")
    case Nil
    then show ?thesis by (rule fireDue_no_timers)
  next
    case (Cons p others)
    obtain ident dueAt callback where p: "p = (ident, dueAt, callback)" by (cases p)
    with a Cons have "timers st = [(ident, dueAt, callback)]" and "dueAt = t0 + 400"
      by (simp_all add: armedOrCancelled_def)
    with t show ?thesis by (simp add: fireDue_not_due)
  qed
  show ?thesis
  proof (cases ev)
    case (TouchMove cx cy)
    with a f show ?thesis
      by (auto simp: step_def moveDrag_def clearTimeout_def Let_def armedOrCancelled_def
            split: option.splits list.splits)
  next
    case (MouseMove cx cy)
    with a f show ?thesis by (simp add: step_def armedOrCancelled_def)
  qed (use m in simp_all)
qed

lemma moves_keep_armedOrCancelled:
  assumes "armedOrCancelled t0 x0 y0 cards ds st"
      and "\<forall>te \<in> set early. isMove (snd te) \<and> fst te < t0 + 400"
  shows "armedOrCancelled t0 x0 y0 cards ds (run hitTest early st)"
  using assms
proof (induction early arbitrary: st)
  case Nil
  then show ?case by simp
next
  case (Cons te early)
  obtain t ev where te: "te = (t, ev)" by (cases te)
  with Cons.prems have "isMove ev" "t < t0 + 400" by simp_all
  with Cons.prems(1) have "armedOrCancelled t0 x0 y0 cards ds (step hitTest (t, ev) st)"
    by (rule move_keeps_armedOrCancelled)
  with Cons.IH Cons.prems(2) te show ?case by simp
qed

lemma far_move_cancels:
  assumes a: "armedOrCancelled t0 x0 y0 cards ds st" and t: "t1 < t0 + 400"
      and far: "\<bar>x1 - x0\<bar> > 10 \<or> \<bar>y1 - y0\<bar> > 10"
  shows "quiet cards ds (step hitTest (t1, TouchMove x1 y1) st) \<and>
         touchTimerRef (step hitTest (t1, TouchMove x1 y1) st) = None"
proof -
  have f: "fireDue hitTest t1 st = st"
  proof (cases "timers st")
    case Nil
    then show ?thesis by (rule fireDue_no_timers)
  next
    case (Cons p others)
    obtain ident dueAt callback where p: "p = (ident, dueAt, callback)" by (cases p)
    with a Cons have "timers st = [(ident, dueAt, callback)]" and "dueAt = t0 + 400"
      by (simp_all add: armedOrCancelled_def)
    with t show ?thesis by (simp add: fireDue_not_due)
  qed
  show ?thesis
    using a f far
    by (auto simp: step_def moveDrag_def clearTimeout_def Let_def armedOrCancelled_def quiet_def
          split: option.splits list.splits)
qed

lemma quiet_step:
  assumes q: "quiet cards ds st" and e: "\<not> isPress ev"
  shows "quiet cards ds (step hitTest (t, ev) st)"
proof -
  from q have f: "fireDue hitTest t st = st" by (simp add: quiet_def fireDue_no_timers)
  show ?thesis
  proof (cases ev)
    case (TouchMove cx cy)
    with q f show ?thesis
      by (auto simp: step_def moveDrag_def clearTimeout_def Let_def quiet_def
            split: option.splits)
  next
    case (MouseMove cx cy)
    with q f show ?thesis by (simp add: step_def quiet_def)
  next
    case (TouchEnd cx cy)
    with q f show ?thesis
      by (auto simp: step_def endDrag_def clearTimeout_def Let_def quiet_def
            split: option.splits)
  next
    case (MouseUp cx cy)
    with q f show ?thesis
      by (auto simp: step_def endDrag_def clearTimeout_def Let_def quiet_def
            split: option.splits)
  qed (use e in simp_all)
qed

lemma quiet_run:
  assumes "quiet cards ds st" and "\<forall>te \<in> set later. \<not> isPress (snd te)"
  shows "quiet cards ds (run hitTest later st)"
  using assms
proof (induction later arbitrary: st)
  case Nil
  then show ?case by simp
next
  case (Cons te later)
  obtain t ev where te: "te = (t, ev)" by (cases te)
  with Cons.prems have "\<not> isPress ev" by simp
  with Cons.prems(1) have "quiet cards ds (step hitTest (t, ev) st)" by (rule quiet_step)
  with Cons.IH Cons.prems(2) te show ?case by simp
qed

text \<open>
  C9, as stated, fails for a mouse: the root element forwards a mouse move to
  \<open>moveDrag\<close> only while a drag is already active (line 556), so a mouse move before
  the timer elapses never reaches the cancelling branch. After a press at time 0, a
  mouse move of 50 pixels at 100 ms does not clear the timer: by 500 ms the drag is
  active with a drag session for slot 0, and the release over slot 1 swaps the two
  slots of the collection.
\<close>

theorem mouse_move_does_not_cancel_long_press:
  "isDragging (dragState (run (\<lambda>px py. Some 1)
      [(0, MouseDown 0 0 (Some 0)), (100, MouseMove 50 0), (500, MouseMove 50 0)]
      (idle [Some ''a'', Some ''b'']))) \<and>
   draggedIndex (dragState (run (\<lambda>px py. Some 1)
      [(0, MouseDown 0 0 (Some 0)), (100, MouseMove 50 0), (500, MouseMove 50 0)]
      (idle [Some ''a'', Some ''b'']))) = Some 0 \<and>
   allCards (run (\<lambda>px py. Some 1)
      [(0, MouseDown 0 0 (Some 0)), (100, MouseMove 50 0), (500, MouseMove 50 0),
       (600, MouseUp 50 0), (700, MouseMove 50 0)]
      (idle [Some ''a'', Some ''b''])) = [Some ''b'', Some ''a'']"
  by (simp add: idle_def step_def fireDue_def startDrag_def setTimeout_def moveDrag_def
        endDrag_def clearTimeout_def cardOrNull_def ITEMS_PER_PAGE_def Let_def
        endDrag_update_eq stripTrailing_eq)

text \<open>
  C9, amended. In every touch gesture that starts with a press over a slot while no
  timer is pending and no drag is active (outside preview mode): if, after any moves made
  before the 400 ms long-press timer is due, a touch move made before the timer is due is
  more than 10 pixels away from the press position along either axis, then the timer is
  cleared, and whatever moves and releases follow and however much time passes, the drag
  never activates: the drag state is never touched (no drag session is created) and the
  collection is unchanged.
\<close>

theorem touch_move_cancels_long_press:
  assumes idle: "timers st = []" "\<not> isDraggingRef st" "\<not> isPreviewMode st"
      and early: "\<forall>te \<in> set early. isMove (snd te) \<and> fst te < t0 + 400"
      and before: "t1 < t0 + 400"
      and far: "\<bar>x1 - x0\<bar> > 10 \<or> \<bar>y1 - y0\<bar> > 10"
      and later: "\<forall>te \<in> set later. \<not> isPress (snd te)"
  shows "timers (run hitTest ((t0, TouchStart x0 y0 (Some slot)) # early @ [(t1, TouchMove x1 y1)]) st) = [] \<and>
         touchTimerRef (run hitTest ((t0, TouchStart x0 y0 (Some slot)) # early @ [(t1, TouchMove x1 y1)]) st) = None \<and>
         allCards (fireDue hitTest T (run hitTest
            ((t0, TouchStart x0 y0 (Some slot)) # early @ [(t1, TouchMove x1 y1)] @ later) st))
           = allCards st \<and>
         dragState (fireDue hitTest T (run hitTest
            ((t0, TouchStart x0 y0 (Some slot)) # early @ [(t1, TouchMove x1 y1)] @ later) st))
           = dragState st \<and>
         \<not> isDraggingRef (fireDue hitTest T (run hitTest
            ((t0, TouchStart x0 y0 (Some slot)) # early @ [(t1, TouchMove x1 y1)] @ later) st))"
proof -
  define s1 where "s1 = step hitTest (t0, TouchStart x0 y0 (Some slot)) st"
  define s2 where "s2 = run hitTest early s1"
  define s3 where "s3 = step hitTest (t1, TouchMove x1 y1) s2"
  define s4 where "s4 = run hitTest later s3"
  have a1: "armedOrCancelled t0 x0 y0 (allCards st) (dragState st) s1"
    unfolding s1_def using idle by (rule press_arms)
  have a2: "armedOrCancelled t0 x0 y0 (allCards st) (dragState st) s2"
    unfolding s2_def using a1 early by (rule moves_keep_armedOrCancelled)
  have q3: "quiet (allCards st) (dragState st) s3" and r3: "touchTimerRef s3 = None"
    unfolding s3_def using far_move_cancels[OF a2 before far] by simp_all
  have q4: "quiet (allCards st) (dragState st) s4"
    unfolding s4_def using q3 later by (rule quiet_run)
  have e3: "run hitTest ((t0, TouchStart x0 y0 (Some slot)) # early @ [(t1, TouchMove x1 y1)]) st = s3"
    by (simp add: run_append s1_def s2_def s3_def)
  have e4: "run hitTest ((t0, TouchStart x0 y0 (Some slot)) # early @ [(t1, TouchMove x1 y1)] @ later) st = s4"
    by (simp add: run_append s1_def s2_def s3_def s4_def)
  have f4: "fireDue hitTest T s4 = s4" using q4 by (simp add: quiet_def fireDue_no_timers)
  show ?thesis
    unfolding e3 e4 f4 using q3 r3 q4 by (simp add: quiet_def)
qed

theorem touch_move_cancels_long_press_witness:
  "timers (idle [Some ''a'', Some ''b'']) = [] \<and>
   \<not> isDraggingRef (idle [Some ''a'', Some ''b'']) \<and>
   \<not> isPreviewMode (idle [Some ''a'', Some ''b'']) \<and>
   isMove (TouchMove 3 4) \<and> (100::nat) < 0 + 400 \<and>
   (200::nat) < 0 + 400 \<and> \<bar>50 - 0\<bar> > (10::int) \<and>
   \<not> isPress (TouchMove 60 0) \<and> \<not> isPress (TouchEnd 60 0) \<and>
   allCards (fireDue (\<lambda>px py. Some 1) 1000 (run (\<lambda>px py. Some 1)
      ((0, TouchStart 0 0 (Some 0)) # [(100, TouchMove 3 4)] @ [(200, TouchMove 50 0)]
        @ [(500, TouchMove 60 0), (600, TouchEnd 60 0)])
      (idle [Some ''a'', Some ''b''])))
     = [Some ''a'', Some ''b''] \<and>
   \<not> isDragging (dragState (fireDue (\<lambda>px py. Some 1) 1000 (run (\<lambda>px py. Some 1)
      ((0, TouchStart 0 0 (Some 0)) # [(100, TouchMove 3 4)] @ [(200, TouchMove 50 0)]
        @ [(500, TouchMove 60 0), (600, TouchEnd 60 0)])
      (idle [Some ''a'', Some ''b'']))))"
proof -
  have i1: "timers (idle [Some ''a'', Some ''b'']) = []"
    and i2: "\<not> isDraggingRef (idle [Some ''a'', Some ''b''])"
    and i3: "\<not> isPreviewMode (idle [Some ''a'', Some ''b''])"
    by (simp_all add: idle_def)
  have e: "\<forall>te \<in> set [(100, TouchMove 3 4)]. isMove (snd te) \<and> fst te < (0::nat) + 400" by simp
  have b: "(200::nat) < 0 + 400" by simp
  have f: "\<bar>50 - 0\<bar> > (10::int) \<or> \<bar>0 - 0\<bar> > (10::int)" by simp
  have l: "\<forall>te \<in> set [(500, TouchMove 60 0), (600, TouchEnd 60 0)]. \<not> isPress (snd te)" by simp
  from touch_move_cancels_long_press[OF i1 i2 i3 e b f l, of "\<lambda>px py. Some 1" 0 1000] i1 i2 i3 e b f l
  show ?thesis by (simp add: idle_def)
qed

end
